theory Spec2Isabelle
  imports Complex_Main
begin

section \<open>The transform engine of \<^verbatim>\<open>fourier.hpp\<close>\<close>

text \<open>
  The class template \<^verbatim>\<open>Fourier<FftPolicy>\<close> is embedded with explicit state passing.
  A \<^verbatim>\<open>double\<close> is read as a \<^typ>\<open>real\<close> and a \<^verbatim>\<open>std::complex<double>\<close> as a
  \<^typ>\<open>complex\<close>: arithmetic is exact, rounding is not modelled.  A \<^verbatim>\<open>size_t\<close> is a
  \<^typ>\<open>nat\<close>; the only products of two sizes, \<^verbatim>\<open>size_ * size_\<close> and
  \<^verbatim>\<open>k * size_ + n\<close>, are taken modulo \<open>2 ^ 64\<close> as the machine does.

  A \<^verbatim>\<open>std::vector\<close> is a list.  The caller's array behind the pointer \<^verbatim>\<open>data\<close> is the
  list of the elements that really exist there; reading it at an index that is not below
  its length has no defined behaviour in C++ and is a \<open>fault\<close> of the model.

  The members \<^verbatim>\<open>rotors_\<close>, \<^verbatim>\<open>fouriers_\<close>, \<^verbatim>\<open>data_\<close> and \<^verbatim>\<open>size_\<close> carry the suffix
  \<open>m\<close> (a name cannot end in an underscore here), and the accessor \<^verbatim>\<open>size()\<close> is
  \<open>size_fn\<close>.
\<close>

subsection \<open>Data\<close>

record Fourier =
  rotors_m :: "complex list"
  fouriers_m :: "complex list"
  data_m :: "real list"
  size_m :: nat

text \<open>
  The template parameter \<^verbatim>\<open>FftPolicy\<close> (header \<^verbatim>\<open>fft_policy.hpp\<close>) supplies two static
  functions.  They are parameters of the model.
\<close>

record FftPolicy =
  calc_size :: "nat \<Rightarrow> nat"
  policy_fft :: "real list \<Rightarrow> complex list \<Rightarrow> complex list"

datatype fault = SampleReadPastEnd nat | MatrixIndexPastEnd nat

text \<open>\<^verbatim>\<open>std::vector::resize\<close>: the first elements are kept, new ones are value-initialised.\<close>

definition resize :: "'a list \<Rightarrow> nat \<Rightarrow> 'a \<Rightarrow> 'a list" where
  "resize xs n v = take n xs @ replicate (n - length xs) v"

subsection \<open>Construction\<close>

text \<open>
  The source writes the circle constant as the literal \<^verbatim>\<open>3.141592653589793\<close>, which
  denotes the \<^verbatim>\<open>double\<close> nearest to \<open>\<pi>\<close> (the value of \<^verbatim>\<open>M_PI\<close> and of the
  commented-out \<^verbatim>\<open>std::numbers::pi\<close>).  With doubles read as reals it is \<^term>\<open>pi\<close>.
\<close>

definition calc_rotors :: "Fourier \<Rightarrow> Fourier" where
  "calc_rotors s =
     (let base_freq = 2 * pi / real (size_m s);
          r0 = resize (rotors_m s) (size_m s) 0
      in s\<lparr>rotors_m :=
             fold (\<lambda>k r. r[k := Complex (cos (base_freq * real k)) (sin (base_freq * real k))])
               [0..<size_m s] r0\<rparr>)"

definition Fourier :: "FftPolicy \<Rightarrow> nat \<Rightarrow> Fourier" where
  "Fourier P sz =
     calc_rotors \<lparr>rotors_m = [], fouriers_m = [], data_m = [], size_m = calc_size P sz\<rparr>"

definition rotors :: "Fourier \<Rightarrow> complex list" where
  "rotors s = rotors_m s"

definition size_fn :: "Fourier \<Rightarrow> nat" where
  "size_fn s = size_m s"

definition fourier_coef :: "Fourier \<Rightarrow> complex list" where
  "fourier_coef s = fouriers_m s"

subsection \<open>Filling the working buffer\<close>

text \<open>
  The loop \<^verbatim>\<open>for (i = 0; i < size_; ++i) data_[i] = data[i];\<close> over the indices it
  visits.  The element type \<^verbatim>\<open>T\<close> of \<^verbatim>\<open>fft\<close> converts to \<^verbatim>\<open>double\<close> by \<open>conv\<close>.
\<close>

primrec copy_samples ::
  "('t \<Rightarrow> real) \<Rightarrow> 't list \<Rightarrow> nat list \<Rightarrow> real list \<Rightarrow> fault + real list" where
  "copy_samples conv src [] buf = Inr buf"
| "copy_samples conv src (i # rest) buf =
     (if i < length src then copy_samples conv src rest (buf[i := conv (src ! i)])
      else Inl (SampleReadPastEnd i))"

text \<open>
  \<^verbatim>\<open>data_.resize(size_); std::fill(begin, end, 0);\<close> and the copy loop, as \<^verbatim>\<open>dft\<close> and
  \<^verbatim>\<open>fft\<close> both start.
\<close>

definition load_data :: "('t \<Rightarrow> real) \<Rightarrow> Fourier \<Rightarrow> 't list \<Rightarrow> fault + real list" where
  "load_data conv s data =
     copy_samples conv data [0..<size_m s]
       (map (\<lambda>_. 0) (resize (data_m s) (size_m s) 0))"

subsection \<open>The direct transform\<close>

definition mtx_index :: "nat \<Rightarrow> nat \<Rightarrow> nat \<Rightarrow> nat" where
  "mtx_index N k n = (k * N + n) mod 2 ^ 64"

primrec fill_mtx_rotors ::
  "real \<Rightarrow> nat \<Rightarrow> (nat \<times> nat) list \<Rightarrow> complex list \<Rightarrow> fault + complex list" where
  "fill_mtx_rotors base_freq N [] m = Inr m"
| "fill_mtx_rotors base_freq N (kn # rest) m =
     (let k = fst kn; n = snd kn; i = mtx_index N k n
      in if i < length m
         then fill_mtx_rotors base_freq N rest
                (m[i := Complex (cos (base_freq * real k * real n))
                                (sin (base_freq * real k * real n))])
         else Inl (MatrixIndexPastEnd i))"

primrec accumulate ::
  "nat \<Rightarrow> complex list \<Rightarrow> real list \<Rightarrow> (nat \<times> nat) list \<Rightarrow> complex list
     \<Rightarrow> fault + complex list" where
  "accumulate N m d [] f = Inr f"
| "accumulate N m d (kn # rest) f =
     (let k = fst kn; n = snd kn; i = mtx_index N k n
      in if i < length m
         then accumulate N m d rest (f[k := f ! k + m ! i * complex_of_real (d ! n)])
         else Inl (MatrixIndexPastEnd i))"

definition dft :: "Fourier \<Rightarrow> real list \<Rightarrow> nat \<Rightarrow> fault + bool \<times> Fourier" where
  "dft s data sz =
     (if sz > size_m s then Inr (False, s)
      else case load_data (\<lambda>x. x) s data of
        Inl e \<Rightarrow> Inl e
      | Inr d \<Rightarrow>
          (let N = size_m s;
               f0 = resize (fouriers_m s) N 0;
               base_freq = 2 * pi / real N;
               loops = List.product [0..<N] [0..<N]
           in case fill_mtx_rotors base_freq N loops (replicate ((N * N) mod 2 ^ 64) 0) of
                Inl e \<Rightarrow> Inl e
              | Inr mtx_rotors \<Rightarrow>
                  (case accumulate N mtx_rotors d loops f0 of
                     Inl e \<Rightarrow> Inl e
                   | Inr f \<Rightarrow>
                       Inr (True,
                            s\<lparr>fouriers_m := map (\<lambda>v. v / Complex (1 / real N) 0) f,
                              data_m := d\<rparr>))))"

subsection \<open>The delegated transform\<close>

definition fft ::
  "FftPolicy \<Rightarrow> ('t \<Rightarrow> real) \<Rightarrow> Fourier \<Rightarrow> 't list \<Rightarrow> nat \<Rightarrow> fault + bool \<times> Fourier" where
  "fft P conv s data sz =
     (if sz > size_m s then Inr (False, s)
      else case load_data conv s data of
        Inl e \<Rightarrow> Inl e
      | Inr d \<Rightarrow> Inr (True, s\<lparr>fouriers_m := policy_fft P d (rotors_m s), data_m := d\<rparr>))"

subsection \<open>Spectra\<close>

text \<open>\<^verbatim>\<open>std::atan2\<close> on reals, and \<^verbatim>\<open>std::arg(z) = atan2(imag z, real z)\<close>.\<close>

definition atan2 :: "real \<Rightarrow> real \<Rightarrow> real" where
  "atan2 y x =
     (if 0 < x then arctan (y / x)
      else if x < 0 then (if 0 \<le> y then arctan (y / x) + pi else arctan (y / x) - pi)
      else if 0 < y then pi / 2
      else if y < 0 then - (pi / 2)
      else 0)"

definition std_arg :: "complex \<Rightarrow> real" where
  "std_arg z = atan2 (Im z) (Re z)"

text \<open>\<^verbatim>\<open>std::abs\<close> of a complex number is its modulus.\<close>

definition amplifiers :: "Fourier \<Rightarrow> real list" where
  "amplifiers s = map cmod (fouriers_m s)"

definition power_spectrums :: "Fourier \<Rightarrow> real list" where
  "power_spectrums s = map (\<lambda>v. v * v) (amplifiers s)"

definition angles :: "Fourier \<Rightarrow> real list" where
  "angles s = map std_arg (fouriers_m s)"

text \<open>A policy for concrete runs: the working size is the requested length.\<close>

definition plain_policy :: FftPolicy where
  "plain_policy = \<lparr>calc_size = (\<lambda>n. n), policy_fft = (\<lambda>d r. map complex_of_real d)\<rparr>"

section \<open>Properties\<close>

subsection \<open>Auxiliary facts\<close>

lemma Fourier_fields:
  "fouriers_m (Fourier P n) = []" "data_m (Fourier P n) = []"
  "size_m (Fourier P n) = calc_size P n"
  by (simp_all add: Fourier_def calc_rotors_def Let_def)

lemma upt_0_2: "[0..<2] = [0, Suc 0]"
  by (simp add: upt_rec)

lemma replicate_2: "replicate 2 x = [x, x]"
  by (simp add: numeral_2_eq_2)

lemma replicate_4: "replicate 4 x = [x, x, x, x]"
  by (simp add: eval_nat_numeral)

lemma Complex_real: "Complex x 0 = complex_of_real x"
  by (simp add: complex_of_real_def)

lemma fresh_engine_1:
  "Fourier plain_policy (Suc 0) = \<lparr>rotors_m = [1], fouriers_m = [], data_m = [], size_m = Suc 0\<rparr>"
  by (simp add: Fourier_def calc_rotors_def plain_policy_def resize_def Let_def Complex_real)

lemma fresh_engine_2:
  "Fourier plain_policy 2 =
     \<lparr>rotors_m = [1, - 1], fouriers_m = [], data_m = [], size_m = 2\<rparr>"
  by (simp add: Fourier_def calc_rotors_def plain_policy_def resize_def Let_def Complex_real
      upt_0_2 replicate_2)

lemma dft_outcome:
  "dft s data sz = Inr (b, s') \<Longrightarrow>
     (b \<longleftrightarrow> sz \<le> size_m s) \<and> (\<not> b \<longrightarrow> s' = s) \<and>
     rotors_m s' = rotors_m s \<and> size_m s' = size_m s"
  by (auto simp: dft_def Let_def split: if_splits sum.splits)

lemma fft_outcome:
  "fft P conv s data sz = Inr (b, s') \<Longrightarrow>
     (b \<longleftrightarrow> sz \<le> size_m s) \<and> (\<not> b \<longrightarrow> s' = s) \<and>
     rotors_m s' = rotors_m s \<and> size_m s' = size_m s"
  by (auto simp: fft_def split: if_splits sum.splits)

lemma dft_oversized: "size_m s < sz \<Longrightarrow> dft s data sz = Inr (False, s)"
  by (simp add: dft_def)

lemma fft_oversized: "size_m s < sz \<Longrightarrow> fft P conv s data sz = Inr (False, s)"
  by (simp add: fft_def)

text \<open>The copy loop: it succeeds when the caller's array has \<open>size_\<close> elements, and
  otherwise stops at the first index past the array's end.\<close>

lemma copy_samples_ok:
  "hi \<le> length src \<Longrightarrow> length buf = hi \<Longrightarrow> i \<le> hi \<Longrightarrow>
   copy_samples conv src [i..<hi] buf = Inr (take i buf @ map conv (drop i (take hi src)))"
proof (induction "hi - i" arbitrary: i buf)
  case 0
  then show ?case by simp
next
  case (Suc d)
  then have lt: "i < hi" by simp
  have "copy_samples conv src [i..<hi] buf =
          copy_samples conv src [Suc i..<hi] (buf[i := conv (src ! i)])"
    using lt Suc.prems by (simp add: upt_conv_Cons)
  also have "\<dots> = Inr (take (Suc i) (buf[i := conv (src ! i)]) @
                       map conv (drop (Suc i) (take hi src)))"
    using Suc.hyps(1) [of "Suc i" "buf[i := conv (src ! i)]"] Suc.hyps(2) Suc.prems lt
    by simp
  also have "take (Suc i) (buf[i := conv (src ! i)]) = take i buf @ [conv (src ! i)]"
    using lt Suc.prems by (simp add: take_Suc_conv_app_nth)
  also have "(take i buf @ [conv (src ! i)]) @ map conv (drop (Suc i) (take hi src)) =
             take i buf @ map conv (drop i (take hi src))"
    using lt Suc.prems by (simp add: Cons_nth_drop_Suc [symmetric])
  finally show ?case .
qed

lemma copy_samples_short:
  "length src < hi \<Longrightarrow> i \<le> length src \<Longrightarrow>
   copy_samples conv src [i..<hi] buf = Inl (SampleReadPastEnd (length src))"
proof (induction "length src - i" arbitrary: i buf)
  case 0
  then show ?case by (simp add: upt_conv_Cons)
next
  case (Suc d)
  then have lt: "i < length src" by simp
  then show ?case
    using Suc.hyps(1) [of "Suc i" "buf[i := conv (src ! i)]"] Suc.hyps(2) Suc.prems
    by (simp add: upt_conv_Cons)
qed

lemma load_data_ok:
  "size_m s \<le> length data \<Longrightarrow> load_data conv s data = Inr (map conv (take (size_m s) data))"
  using copy_samples_ok [of "size_m s" data "map (\<lambda>_. 0) (resize (data_m s) (size_m s) 0)" 0 conv]
  by (simp add: load_data_def resize_def)

lemma load_data_short:
  "length data < size_m s \<Longrightarrow> load_data conv s data = Inl (SampleReadPastEnd (length data))"
  using copy_samples_short [of data "size_m s" 0 conv]
  by (simp add: load_data_def)

text \<open>
  What an accepted \<open>dft\<close> stores, for a working size whose square fits a \<^verbatim>\<open>size_t\<close> and
  a caller's array of at least \<open>size_\<close> elements: the buffer is the first \<open>size_\<close>
  elements of the array, and coefficient \<open>k\<close> is the old coefficient \<open>k\<close> (zero where
  there was none) plus the sum over the row \<open>k\<close> of the matrix, divided by \<open>1 / size_\<close>.
\<close>

lemma mtx_index_small:
  assumes "k < N" "n < N" "N * N < 2 ^ 64"
  shows "mtx_index N k n = k * N + n" "k * N + n < N * N"
proof -
  have "k * N + n < k * N + N"
    using assms by simp
  also have "\<dots> = Suc k * N"
    by simp
  also have "\<dots> \<le> N * N"
    using assms by (simp add: Suc_leI del: mult_Suc)
  finally show lt: "k * N + n < N * N" .
  then show "mtx_index N k n = k * N + n"
    using assms by (simp add: mtx_index_def)
qed

lemma fill_mtx_rotors_ok:
  assumes "\<forall>p\<in>set ps. fst p < N \<and> snd p < N" "length m = N * N" "N * N < 2 ^ 64"
  shows "\<exists>m'. fill_mtx_rotors bf N ps m = Inr m' \<and> length m' = N * N \<and>
           (\<forall>i<N * N. m' ! i =
              (if (i div N, i mod N) \<in> set ps
               then Complex (cos (bf * real (i div N) * real (i mod N)))
                            (sin (bf * real (i div N) * real (i mod N)))
               else m ! i))"
  using assms
proof (induction ps arbitrary: m)
  case Nil
  then show ?case by simp
next
  case (Cons p ps)
  obtain k n where p: "p = (k, n)"
    by (cases p)
  with Cons.prems have kn: "k < N" "n < N"
    by simp_all
  note ix = mtx_index_small [OF kn Cons.prems(3)]
  let ?v = "Complex (cos (bf * real k * real n)) (sin (bf * real k * real n))"
  let ?m1 = "m[k * N + n := ?v]"
  have step: "fill_mtx_rotors bf N (p # ps) m = fill_mtx_rotors bf N ps ?m1"
    using ix Cons.prems(2) by (simp add: p Let_def)
  have "\<forall>p\<in>set ps. fst p < N \<and> snd p < N" "length ?m1 = N * N"
    using Cons.prems by simp_all
  from Cons.IH [OF this Cons.prems(3)]
  obtain m' where m': "fill_mtx_rotors bf N ps ?m1 = Inr m'" "length m' = N * N"
    "\<forall>i<N * N. m' ! i =
              (if (i div N, i mod N) \<in> set ps
               then Complex (cos (bf * real (i div N) * real (i mod N)))
                            (sin (bf * real (i div N) * real (i mod N)))
               else ?m1 ! i)"
    by blast
  have "m' ! i =
              (if (i div N, i mod N) \<in> set (p # ps)
               then Complex (cos (bf * real (i div N) * real (i mod N)))
                            (sin (bf * real (i div N) * real (i mod N)))
               else m ! i)" if i: "i < N * N" for i
  proof (cases "i = k * N + n")
    case True
    then have "i div N = k" "i mod N = n"
      using kn by simp_all
    then show ?thesis
      using m'(3) i True Cons.prems(2) by (simp add: p)
  next
    case False
    then have "(i div N, i mod N) \<noteq> (k, n)"
      using div_mult_mod_eq [of i N] by auto
    then show ?thesis
      using m'(3) i False by (auto simp: p)
  qed
  with step m'(1,2) show ?case
    by simp
qed

lemma accumulate_ok:
  assumes "\<forall>p\<in>set ps. fst p < N \<and> snd p < N" "length m = N * N" "N * N < 2 ^ 64"
    "length f = N"
  shows "accumulate N m d ps f =
           Inr (map (\<lambda>k. f ! k +
                      sum_list (map (\<lambda>p. m ! (fst p * N + snd p) * complex_of_real (d ! snd p))
                                  (filter (\<lambda>p. fst p = k) ps)))
                  [0..<N])"
  using assms
proof (induction ps arbitrary: f)
  case Nil
  then have "map ((!) f) [0..<N] = f"
    using map_nth [of f] by simp
  then show ?case
    by simp
next
  case (Cons p ps)
  obtain k n where p: "p = (k, n)"
    by (cases p)
  with Cons.prems have kn: "k < N" "n < N"
    by simp_all
  note ix = mtx_index_small [OF kn Cons.prems(3)]
  let ?f1 = "f[k := f ! k + m ! (k * N + n) * complex_of_real (d ! n)]"
  have step: "accumulate N m d (p # ps) f = accumulate N m d ps ?f1"
    using ix Cons.prems(2) by (simp add: p Let_def)
  have "\<forall>p\<in>set ps. fst p < N \<and> snd p < N" "length ?f1 = N"
    using Cons.prems by simp_all
  from Cons.IH [OF this(1) Cons.prems(2,3) this(2)]
  have "accumulate N m d ps ?f1 =
           Inr (map (\<lambda>j. ?f1 ! j +
                      sum_list (map (\<lambda>p. m ! (fst p * N + snd p) * complex_of_real (d ! snd p))
                                  (filter (\<lambda>p. fst p = j) ps)))
                  [0..<N])" .
  also have "map (\<lambda>j. ?f1 ! j +
                      sum_list (map (\<lambda>p. m ! (fst p * N + snd p) * complex_of_real (d ! snd p))
                                  (filter (\<lambda>p. fst p = j) ps)))
                  [0..<N] =
             map (\<lambda>j. f ! j +
                      sum_list (map (\<lambda>p. m ! (fst p * N + snd p) * complex_of_real (d ! snd p))
                                  (filter (\<lambda>p. fst p = j) (p # ps))))
                  [0..<N]"
    using Cons.prems(4) kn by (auto simp: p nth_list_update add.assoc)
  finally show ?case
    using step by simp
qed

lemma filter_product_row:
  assumes "distinct xs" "k \<in> set xs"
  shows "filter (\<lambda>p. fst p = k) (List.product xs ys) = map (Pair k) ys"
  using assms
proof (induction xs)
  case Nil
  then show ?case by simp
next
  case (Cons x xs)
  have none: "filter (\<lambda>p. fst p = k) (List.product zs ys) = []" if "k \<notin> set zs" for zs
    using that by (induction zs) (auto simp: filter_empty_conv)
  show ?case
  proof (cases "x = k")
    case True
    then have "k \<notin> set xs"
      using Cons.prems by simp
    then show ?thesis
      using True none [of xs] by (simp add: filter_map comp_def)
  next
    case False
    then have "filter (\<lambda>p. fst p = k) (map (Pair x) ys) = []"
      by (auto simp: filter_empty_conv)
    then show ?thesis
      using False Cons by simp
  qed
qed


lemma dft_accepted:
  assumes "sz \<le> size_m s" "size_m s \<le> length data" "size_m s * size_m s < 2 ^ 64"
  shows "dft s data sz =
     Inr (True,
          s\<lparr>fouriers_m :=
               map (\<lambda>k. (resize (fouriers_m s) (size_m s) 0 ! k +
                          sum_list (map (\<lambda>n.
                              Complex (cos (2 * pi / real (size_m s) * real k * real n))
                                      (sin (2 * pi / real (size_m s) * real k * real n))
                              * complex_of_real (data ! n)) [0..<size_m s]))
                         / Complex (1 / real (size_m s)) 0)
                 [0..<size_m s],
             data_m := take (size_m s) data\<rparr>)"
proof -
  define N where "N = size_m s"
  define bf where "bf = 2 * pi / real N"
  define ps where "ps = List.product [0..<N] [0..<N]"
  define f0 where "f0 = resize (fouriers_m s) N (0::complex)"
  define d where "d = take N data"
  have small: "N * N < 2 ^ 64"
    using assms(3) by (simp add: N_def)
  have ps: "\<forall>p\<in>set ps. fst p < N \<and> snd p < N"
    by (auto simp: ps_def)
  have load: "load_data (\<lambda>x. x) s data = Inr d"
    using assms(2) by (simp add: load_data_ok d_def N_def)
  from fill_mtx_rotors_ok [OF ps _ small, of "replicate (N * N mod 2 ^ 64) 0" bf]
  obtain m where m: "fill_mtx_rotors bf N ps (replicate (N * N mod 2 ^ 64) 0) = Inr m"
    "length m = N * N"
    "\<forall>i<N * N. m ! i =
              (if (i div N, i mod N) \<in> set ps
               then Complex (cos (bf * real (i div N) * real (i mod N)))
                            (sin (bf * real (i div N) * real (i mod N)))
               else replicate (N * N mod 2 ^ 64) 0 ! i)"
    using small by auto
  have entry: "m ! (k * N + n) = Complex (cos (bf * real k * real n)) (sin (bf * real k * real n))"
    if "k < N" "n < N" for k n
  proof -
    have "k * N + n < N * N"
      using that small by (rule mtx_index_small(2))
    moreover have "((k * N + n) div N, (k * N + n) mod N) \<in> set ps"
      using that by (simp add: ps_def)
    ultimately show ?thesis
      using m(3) that by simp
  qed
  have f0: "length f0 = N"
    by (simp add: f0_def resize_def)
  have acc: "accumulate N m d ps f0 =
           Inr (map (\<lambda>k. f0 ! k +
                      sum_list (map (\<lambda>p. m ! (fst p * N + snd p) * complex_of_real (d ! snd p))
                                  (filter (\<lambda>p. fst p = k) ps)))
                  [0..<N])"
    using ps m(2) small f0 by (rule accumulate_ok)
  have row: "sum_list (map (\<lambda>p. m ! (fst p * N + snd p) * complex_of_real (d ! snd p))
                                  (filter (\<lambda>p. fst p = k) ps)) =
             sum_list (map (\<lambda>n. Complex (cos (bf * real k * real n)) (sin (bf * real k * real n))
                              * complex_of_real (data ! n)) [0..<N])"
    if k: "k < N" for k
  proof -
    have a: "filter (\<lambda>p. fst p = k) ps = map (Pair k) [0..<N]"
      unfolding ps_def using k by (intro filter_product_row) simp_all
    have b: "map (\<lambda>n. m ! (k * N + n) * complex_of_real (d ! n)) [0..<N] =
        map (\<lambda>n. Complex (cos (bf * real k * real n)) (sin (bf * real k * real n))
          * complex_of_real (data ! n)) [0..<N]"
      using k entry [of k] by (intro map_cong) (simp_all add: d_def)
    have "sum_list (map (\<lambda>p. m ! (fst p * N + snd p) * complex_of_real (d ! snd p))
                                  (filter (\<lambda>p. fst p = k) ps)) =
          sum_list (map (\<lambda>n. m ! (k * N + n) * complex_of_real (d ! n)) [0..<N])"
      by (simp add: a comp_def)
    also have "\<dots> = sum_list (map (\<lambda>n. Complex (cos (bf * real k * real n))
                                             (sin (bf * real k * real n))
                              * complex_of_real (data ! n)) [0..<N])"
      by (simp only: b)
    finally show ?thesis .
  qed
  have "map (\<lambda>k. f0 ! k +
                      sum_list (map (\<lambda>p. m ! (fst p * N + snd p) * complex_of_real (d ! snd p))
                                  (filter (\<lambda>p. fst p = k) ps)))
                  [0..<N] =
        map (\<lambda>k. f0 ! k +
               sum_list (map (\<lambda>n. Complex (cos (bf * real k * real n)) (sin (bf * real k * real n))
                              * complex_of_real (data ! n)) [0..<N]))
                  [0..<N]"
    using row by simp
  with acc have acc': "accumulate N m d ps f0 =
        Inr (map (\<lambda>k. f0 ! k +
               sum_list (map (\<lambda>n. Complex (cos (bf * real k * real n)) (sin (bf * real k * real n))
                              * complex_of_real (data ! n)) [0..<N]))
                  [0..<N])"
    by simp
  have "dft s data sz =
     Inr (True,
          s\<lparr>fouriers_m :=
               map (\<lambda>v. v / Complex (1 / real N) 0)
                 (map (\<lambda>k. f0 ! k +
                    sum_list (map (\<lambda>n. Complex (cos (bf * real k * real n))
                                           (sin (bf * real k * real n))
                              * complex_of_real (data ! n)) [0..<N]))
                  [0..<N]),
             data_m := d\<rparr>)"
    using assms(1) load m(1) acc'
    by (simp add: dft_def Let_def N_def [symmetric] bf_def [symmetric] ps_def [symmetric]
        f0_def [symmetric])
  then show ?thesis
    by (simp add: N_def bf_def f0_def d_def comp_def)
qed

lemma divide_by_reciprocal: "v / Complex (1 / real N) 0 = v * of_nat N"
proof -
  have "Complex (1 / real N) 0 = complex_of_real (inverse (real N))"
    by (simp add: Complex_real divide_inverse)
  also have "\<dots> = inverse (of_nat N)"
    by (simp add: of_real_inverse)
  finally show ?thesis
    by (simp add: divide_inverse)
qed

text \<open>Hence each stored coefficient is the old one plus the row sum, times \<open>size_\<close>.\<close>

lemma dft_coefficient:
  assumes "sz \<le> size_m s" "size_m s \<le> length data" "size_m s * size_m s < 2 ^ 64"
    and "k < size_m s"
  shows "\<exists>s'. dft s data sz = Inr (True, s') \<and> data_m s' = take (size_m s) data \<and>
           fouriers_m s' ! k =
             (resize (fouriers_m s) (size_m s) 0 ! k +
              sum_list (map (\<lambda>n.
                  Complex (cos (2 * pi / real (size_m s) * real k * real n))
                          (sin (2 * pi / real (size_m s) * real k * real n))
                  * complex_of_real (data ! n)) [0..<size_m s]))
             * of_nat (size_m s)"
  using assms(4) by (simp add: dft_accepted [OF assms(1-3)] divide_by_reciprocal)

text \<open>Concrete runs on fresh engines of working size 1 and 2.\<close>

lemma dft_run_1:
  "dft (Fourier plain_policy 1) [1] 1 =
     Inr (True, \<lparr>rotors_m = [1], fouriers_m = [1], data_m = [1], size_m = 1\<rparr>)"
  by (simp add: fresh_engine_1 dft_def load_data_def resize_def Let_def mtx_index_def
      Complex_real)

lemma dft_run_2:
  "dft (Fourier plain_policy 2) [1, 1] 2 =
     Inr (True, \<lparr>rotors_m = [1, - 1], fouriers_m = [4, 0], data_m = [1, 1], size_m = 2\<rparr>)"
  by (simp add: fresh_engine_2 dft_def load_data_def resize_def Let_def mtx_index_def
      upt_0_2 replicate_2 replicate_4 Complex_real)

lemma fft_run_2:
  "fft plain_policy (\<lambda>x. x) (Fourier plain_policy 2) [3, 4] 2 =
     Inr (True, \<lparr>rotors_m = [1, - 1], fouriers_m = [3, 4], data_m = [3, 4], size_m = 2\<rparr>)"
  unfolding fresh_engine_2
  by (simp add: fft_def load_data_def resize_def upt_0_2 replicate_2 plain_policy_def)

text \<open>The rotation table is the list of the values the loop of \<open>calc_rotors\<close> stores.\<close>

lemma fold_store:
  "n \<le> length r \<Longrightarrow> fold (\<lambda>k r. r[k := g k]) [0..<n] r = map g [0..<n] @ drop n r"
proof (induction n)
  case 0
  then show ?case by simp
next
  case (Suc n)
  then have "fold (\<lambda>k r. r[k := g k]) [0..<Suc n] r = (map g [0..<n] @ drop n r)[n := g n]"
    by simp
  also have "\<dots> = map g [0..<n] @ (drop n r)[0 := g n]"
    by (simp add: list_update_append)
  also have "drop n r = r ! n # drop (Suc n) r"
    using Suc.prems by (simp add: Cons_nth_drop_Suc)
  finally show ?case by simp
qed

lemma rotors_Fourier:
  "rotors_m (Fourier P n) =
     map (\<lambda>k. Complex (cos (2 * pi / real (calc_size P n) * real k))
                       (sin (2 * pi / real (calc_size P n) * real k)))
       [0..<calc_size P n]"
  by (simp add: Fourier_def calc_rotors_def Let_def resize_def fold_store)

lemma rotors_Fourier_nth:
  assumes "k < calc_size P n"
  shows "rotors_m (Fourier P n) ! k =
           Complex (cos (2 * pi * real k / real (calc_size P n)))
                   (sin (2 * pi * real k / real (calc_size P n)))"
proof -
  have "2 * pi / real (calc_size P n) * real k =
        2 * pi * real k / real (calc_size P n)"
    by simp
  then show ?thesis
    using assms by (simp only: rotors_Fourier nth_map length_upt diff_zero nth_upt add_0)
qed

lemma cmod_cos_sin: "cmod (Complex (cos t) (sin t)) = 1"
  by (simp add: cmod_def)

text \<open>The range of \<open>atan2\<close>.\<close>

lemma atan2_range: "- pi < atan2 y x \<and> atan2 y x \<le> pi"
proof -
  have b: "- (pi / 2) < arctan (y / x)" "arctan (y / x) < pi / 2"
    by (rule arctan_lbound, rule arctan_ubound)
  consider "0 < x" | "x < 0" "0 \<le> y" | "x < 0" "y < 0" | "x = 0"
    by linarith
  then show ?thesis
  proof cases
    case 1
    then show ?thesis using b pi_gt_zero by (auto simp: atan2_def)
  next
    case 2
    then have "y / x \<le> 0" by (simp add: divide_nonneg_neg)
    then have "arctan (y / x) \<le> 0" by (simp add: arctan_le_zero_iff)
    then show ?thesis using 2 b by (auto simp: atan2_def)
  next
    case 3
    then have "0 < y / x" by (simp add: divide_neg_neg)
    then have "0 < arctan (y / x)" by (simp add: zero_less_arctan_iff)
    then show ?thesis using 3 b by (auto simp: atan2_def)
  next
    case 4
    then have "atan2 y x = pi / 2 \<or> atan2 y x = - (pi / 2) \<or> atan2 y x = 0"
      by (simp add: atan2_def)
    then show ?thesis
      using pi_gt_zero by linarith
  qed
qed

text \<open>\<open>std_arg\<close> is the principal argument of a complex number.\<close>

lemma sqrt_one_plus_ratio:
  fixes x y :: real
  assumes "x \<noteq> 0"
  shows "sqrt (1 + (y / x)\<^sup>2) = sqrt (x\<^sup>2 + y\<^sup>2) / \<bar>x\<bar>"
proof -
  have "1 + (y / x)\<^sup>2 = (x\<^sup>2 + y\<^sup>2) / x\<^sup>2"
    using assms by (simp add: power_divide add_divide_distrib)
  then show ?thesis
    by (simp add: real_sqrt_divide)
qed

lemma cos_sin_atan2:
  fixes x y :: real
  assumes "x \<noteq> 0 \<or> y \<noteq> 0"
  shows "cos (atan2 y x) = x / sqrt (x\<^sup>2 + y\<^sup>2)"
    and "sin (atan2 y x) = y / sqrt (x\<^sup>2 + y\<^sup>2)"
proof -
  consider "0 < x" | "x < 0" | "x = 0" "0 < y" | "x = 0" "y < 0"
    using assms by linarith
  then have "cos (atan2 y x) = x / sqrt (x\<^sup>2 + y\<^sup>2) \<and>
             sin (atan2 y x) = y / sqrt (x\<^sup>2 + y\<^sup>2)"
  proof cases
    case 1
    then show ?thesis
      by (simp add: atan2_def cos_arctan sin_arctan sqrt_one_plus_ratio)
  next
    case 2
    then show ?thesis
      by (simp add: atan2_def cos_arctan sin_arctan sqrt_one_plus_ratio cos_diff sin_diff
          cos_add sin_add)
  next
    case 3
    then show ?thesis
      by (simp add: atan2_def)
  next
    case 4
    then show ?thesis
      by (simp add: atan2_def)
  qed
  then show "cos (atan2 y x) = x / sqrt (x\<^sup>2 + y\<^sup>2)"
    and "sin (atan2 y x) = y / sqrt (x\<^sup>2 + y\<^sup>2)"
    by simp_all
qed

lemma std_arg_is_Arg: "std_arg z = Arg z"
proof (cases "z = 0")
  case True
  then show ?thesis
    by (simp add: std_arg_def atan2_def Arg_zero)
next
  case False
  then have nz: "Re z \<noteq> 0 \<or> Im z \<noteq> 0"
    by (auto simp: complex_eq_iff)
  have "sgn z = cis (std_arg z)"
    using cos_sin_atan2 [OF nz]
    by (simp add: complex_eq_iff std_arg_def cmod_def)
  then show ?thesis
    using atan2_range [of "Im z" "Re z"]
    by (simp add: cis_Arg_unique std_arg_def)
qed

subsection \<open>Before the first transform\<close>

text \<open>
  C7.  An engine that has just been constructed, for any policy and any requested length,
  has an empty coefficient sequence, and its amplitude, power and phase sequences are
  empty lists as well.
\<close>

theorem empty_before_transform:
  "fourier_coef (Fourier P n) = [] \<and> amplifiers (Fourier P n) = [] \<and>
   power_spectrums (Fourier P n) = [] \<and> angles (Fourier P n) = []"
  by (simp add: fourier_coef_def amplifiers_def power_spectrums_def angles_def Fourier_fields)

subsection \<open>Oversized input\<close>

text \<open>
  C4.  \<open>dft\<close> and \<open>fft\<close> return \<open>false\<close> exactly when the count exceeds the working size,
  and a call that returns \<open>false\<close> leaves \<open>size()\<close> as it was.
\<close>

theorem oversized_rejection:
  "((\<exists>s'. dft s data sz = Inr (False, s')) \<longleftrightarrow> size_fn s < sz) \<and>
   ((\<exists>s'. fft P conv s data sz = Inr (False, s')) \<longleftrightarrow> size_fn s < sz) \<and>
   (\<forall>s'. dft s data sz = Inr (False, s') \<longrightarrow> size_fn s' = size_fn s) \<and>
   (\<forall>s'. fft P conv s data sz = Inr (False, s') \<longrightarrow> size_fn s' = size_fn s)"
proof -
  have "(\<exists>s'. dft s data sz = Inr (False, s')) \<longleftrightarrow> size_m s < sz"
    using dft_outcome [of s data sz False] dft_oversized [of s sz data] by auto
  moreover have "(\<exists>s'. fft P conv s data sz = Inr (False, s')) \<longleftrightarrow> size_m s < sz"
    using fft_outcome [of P conv s data sz False] fft_oversized [of s sz P conv data] by auto
  moreover have "\<forall>s'. dft s data sz = Inr (False, s') \<longrightarrow> size_m s' = size_m s"
    using dft_outcome [of s data sz False] by blast
  moreover have "\<forall>s'. fft P conv s data sz = Inr (False, s') \<longrightarrow> size_m s' = size_m s"
    using fft_outcome [of P conv s data sz False] by blast
  ultimately show ?thesis
    by (simp add: size_fn_def)
qed

theorem oversized_rejection_witness:
  "(\<exists>s'. dft (Fourier plain_policy 2) [1, 2, 3] 3 = Inr (False, s') \<and> size_fn s' = 2) \<and>
   (\<exists>s'. fft plain_policy (\<lambda>x. x) (Fourier plain_policy 2) [1, 2, 3] 3 = Inr (False, s')
          \<and> size_fn s' = 2)"
proof -
  let ?s = "Fourier plain_policy 2"
  have n: "size_fn ?s = 2"
    by (simp add: size_fn_def Fourier_fields plain_policy_def)
  note r = oversized_rejection [of ?s "[1, 2, 3]" 3 plain_policy "\<lambda>x. x"]
  from r n obtain s1 where s1: "dft ?s [1, 2, 3] 3 = Inr (False, s1)"
    by auto
  from r n obtain s2 where s2: "fft plain_policy (\<lambda>x. x) ?s [1, 2, 3] 3 = Inr (False, s2)"
    by auto
  from r s1 n have "size_fn s1 = 2"
    by auto
  moreover from r s2 n have "size_fn s2 = 2"
    by auto
  ultimately show ?thesis
    using s1 s2 by simp
qed

text \<open>
  C9.  A call of \<open>dft\<close> or \<open>fft\<close> that returns \<open>false\<close> changes nothing: coefficient
  sequence, working buffer, rotation table and working size are those from before the
  call.
\<close>

theorem rejected_call_is_atomic:
  assumes "r = dft s data sz \<or> r = fft P conv s data sz"
    and "r = Inr (False, s')"
  shows "fouriers_m s' = fouriers_m s \<and> data_m s' = data_m s \<and>
         rotors_m s' = rotors_m s \<and> size_m s' = size_m s"
proof -
  have "s' = s"
    using assms dft_outcome [of s data sz False s'] fft_outcome [of P conv s data sz False s']
    by auto
  then show ?thesis
    by simp
qed

theorem rejected_call_is_atomic_witness:
  "dft \<lparr>rotors_m = [1], fouriers_m = [7], data_m = [3], size_m = 1\<rparr> [1, 2] 2 =
     Inr (False, \<lparr>rotors_m = [1], fouriers_m = [7], data_m = [3], size_m = 1\<rparr>) \<and>
   fft plain_policy (\<lambda>x. x)
     \<lparr>rotors_m = [1], fouriers_m = [7], data_m = [3], size_m = 1\<rparr> [1, 2] 2 =
     Inr (False, \<lparr>rotors_m = [1], fouriers_m = [7], data_m = [3], size_m = 1\<rparr>) \<and>
   fouriers_m \<lparr>rotors_m = [1], fouriers_m = [7], data_m = [3], size_m = 1\<rparr> = [7] \<and>
   data_m \<lparr>rotors_m = [1], fouriers_m = [7], data_m = [3], size_m = 1\<rparr> = [3]"
proof -
  let ?s = "\<lparr>rotors_m = [1], fouriers_m = [7], data_m = [3], size_m = 1\<rparr>"
  have call: "dft ?s [1, 2] 2 = Inr (False, ?s)"
    by (simp add: dft_def)
  have call': "fft plain_policy (\<lambda>x. x) ?s [1, 2] 2 = Inr (False, ?s)"
    by (simp add: fft_def)
  from rejected_call_is_atomic [of "dft ?s [1, 2] 2" ?s "[1, 2]" 2 plain_policy "\<lambda>x. x" ?s]
    rejected_call_is_atomic
      [of "fft plain_policy (\<lambda>x. x) ?s [1, 2] 2" ?s "[1, 2]" 2 plain_policy "\<lambda>x. x" ?s]
    call call'
  show ?thesis
    by simp
qed

subsection \<open>Filling the buffer reads \<open>size_\<close> elements\<close>

text \<open>
  C10, evaluated.  Working size 2, a caller's array of one element, count 1: the copy
  loop reads the caller's array at index 1, which is not below the count, in \<open>dft\<close> and
  in \<open>fft\<close> alike.
\<close>

theorem copy_loop_reads_past_count:
  "dft (Fourier plain_policy 2) [1] 1 = Inl (SampleReadPastEnd 1) \<and>
   fft plain_policy (\<lambda>x. x) (Fourier plain_policy 2) [1] 1 = Inl (SampleReadPastEnd 1)"
  by (simp add: fresh_engine_2 dft_def fft_def load_data_def resize_def upt_0_2 replicate_2)

text \<open>
  C2, evaluated.  Working size 2, a caller's array \<open>[1, 5]\<close>, count 1: after the call
  the working buffer is \<open>[1, 5]\<close>; position 1 holds the caller's second element, not
  zero.
\<close>

theorem buffer_holds_elements_past_count:
  "(\<exists>s'. dft (Fourier plain_policy 2) [1, 5] 1 = Inr (True, s') \<and> data_m s' = [1, 5]) \<and>
   (\<exists>s'. fft plain_policy (\<lambda>x. x) (Fourier plain_policy 2) [1, 5] 1 = Inr (True, s')
          \<and> data_m s' = [1, 5])"
  by (simp add: fresh_engine_2 dft_def fft_def load_data_def resize_def Let_def mtx_index_def
      upt_0_2 replicate_2 replicate_4)

subsection \<open>The direct transform on concrete inputs\<close>

text \<open>
  C3, evaluated.  Working size 1, samples \<open>[1]\<close>: the first \<open>dft\<close> on a fresh engine
  stores the coefficient 1; the same call again stores 2, since the sum is added to the
  coefficient that is already there.
\<close>

theorem dft_again_adds_to_old_coefficients:
  "dft (Fourier plain_policy 1) [1] 1 =
     Inr (True, \<lparr>rotors_m = [1], fouriers_m = [1], data_m = [1], size_m = 1\<rparr>) \<and>
   dft \<lparr>rotors_m = [1], fouriers_m = [1], data_m = [1], size_m = 1\<rparr> [1] 1 =
     Inr (True, \<lparr>rotors_m = [1], fouriers_m = [2], data_m = [1], size_m = 1\<rparr>)"
proof
  show "dft (Fourier plain_policy 1) [1] 1 =
     Inr (True, \<lparr>rotors_m = [1], fouriers_m = [1], data_m = [1], size_m = 1\<rparr>)"
    by (rule dft_run_1)
  show "dft \<lparr>rotors_m = [1], fouriers_m = [1], data_m = [1], size_m = 1\<rparr> [1] 1 =
     Inr (True, \<lparr>rotors_m = [1], fouriers_m = [2], data_m = [1], size_m = 1\<rparr>)"
    by (simp add: dft_def load_data_def resize_def Let_def mtx_index_def Complex_real)
qed

text \<open>
  C1, evaluated.  Working size 2, samples \<open>[1, 1]\<close> on a fresh engine: the sum for
  \<open>k = 0\<close> is 2, and the stored coefficient is 4, the sum divided by \<open>1 / N\<close>.
\<close>

theorem dft_divides_by_reciprocal:
  "\<exists>s'. dft (Fourier plain_policy 2) [1, 1] 2 = Inr (True, s') \<and>
        data_m s' = [1, 1] \<and> fourier_coef s' ! 0 = 4"
  by (simp add: dft_run_2 fourier_coef_def)

subsection \<open>The delegated transform\<close>

text \<open>
  C5.  An accepted call of \<open>fft\<close> (count at most the working size) on an array that holds
  the \<open>size_\<close> elements the copy loop reads returns \<open>true\<close>, and the stored coefficient
  sequence is what the policy's \<open>fft\<close> returns for the working buffer and the rotation
  table, unscaled; the rotation table is not changed.  On a shorter array the copy loop
  reads past the array's end and nothing is stored.
\<close>

theorem fft_stores_provider_result:
  assumes "sz \<le> size_m s"
  shows "(size_m s \<le> length data \<longrightarrow>
            (\<exists>s'. fft P conv s data sz = Inr (True, s') \<and>
                  fourier_coef s' = policy_fft P (data_m s') (rotors s') \<and>
                  rotors s' = rotors s)) \<and>
         (length data < size_m s \<longrightarrow>
            fft P conv s data sz = Inl (SampleReadPastEnd (length data)))"
  using assms by (simp add: fft_def load_data_ok load_data_short fourier_coef_def rotors_def)

theorem fft_stores_provider_result_witness:
  "(2::nat) \<le> size_m (Fourier plain_policy 2) \<and>
   (\<exists>s'. fft plain_policy (\<lambda>x. x) (Fourier plain_policy 2) [3, 4] 2 = Inr (True, s') \<and>
         fourier_coef s' = policy_fft plain_policy (data_m s') (rotors s') \<and>
         fourier_coef s' = [3, 4]) \<and>
   fft plain_policy (\<lambda>x. x) (Fourier plain_policy 2) [3] 1 = Inl (SampleReadPastEnd 1)"
proof -
  let ?s = "Fourier plain_policy 2"
  have n: "size_m ?s = 2"
    by (simp add: Fourier_fields plain_policy_def)
  from fft_stores_provider_result [of 2 ?s "[3, 4]" plain_policy "\<lambda>x. x"] n
  obtain s' where s': "fft plain_policy (\<lambda>x. x) ?s [3, 4] 2 = Inr (True, s')"
    "fourier_coef s' = policy_fft plain_policy (data_m s') (rotors s')"
    by auto
  from s'(1) have "fourier_coef s' = [3, 4]"
    by (auto simp: fft_run_2 fourier_coef_def)
  moreover from fft_stores_provider_result [of 1 ?s "[3]" plain_policy "\<lambda>x. x"] n
  have "fft plain_policy (\<lambda>x. x) ?s [3] 1 = Inl (SampleReadPastEnd 1)"
    by simp
  ultimately show ?thesis
    using n s' by auto
qed

subsection \<open>Spectra\<close>

text \<open>
  C6.  For every index \<open>k\<close> of the coefficient sequence: the amplitude at \<open>k\<close> is the
  square root of the sum of the squares of the real and imaginary part of coefficient
  \<open>k\<close> and is not negative, the power at \<open>k\<close> is the square of that amplitude, and the
  phase at \<open>k\<close> is \<open>atan2\<close> of the imaginary and the real part, a value in \<open>(-\<pi>, \<pi>]\<close>.
  The three sequences are as long as the coefficient sequence.
\<close>

theorem spectra_of_coefficients:
  assumes "k < length (fourier_coef s)"
  shows "amplifiers s ! k = sqrt ((Re (fourier_coef s ! k))\<^sup>2 + (Im (fourier_coef s ! k))\<^sup>2) \<and>
         0 \<le> amplifiers s ! k \<and>
         power_spectrums s ! k = (amplifiers s ! k)\<^sup>2 \<and>
         angles s ! k = atan2 (Im (fourier_coef s ! k)) (Re (fourier_coef s ! k)) \<and>
         - pi < angles s ! k \<and> angles s ! k \<le> pi \<and>
         length (amplifiers s) = length (fourier_coef s) \<and>
         length (power_spectrums s) = length (fourier_coef s) \<and>
         length (angles s) = length (fourier_coef s)"
  using assms atan2_range [of "Im (fouriers_m s ! k)" "Re (fouriers_m s ! k)"]
  by (simp add: fourier_coef_def amplifiers_def power_spectrums_def angles_def std_arg_def
      cmod_def power2_eq_square)

theorem spectra_of_coefficients_witness:
  "(0::nat) < length (fourier_coef \<lparr>rotors_m = [1], fouriers_m = [Complex 3 4], data_m = [1],
                                   size_m = 1\<rparr>) \<and>
   amplifiers \<lparr>rotors_m = [1], fouriers_m = [Complex 3 4], data_m = [1], size_m = 1\<rparr> ! 0 =
     sqrt 25 \<and>
   power_spectrums \<lparr>rotors_m = [1], fouriers_m = [Complex 3 4], data_m = [1], size_m = 1\<rparr> ! 0
     = 25 \<and>
   angles \<lparr>rotors_m = [1], fouriers_m = [Complex 3 4], data_m = [1], size_m = 1\<rparr> ! 0 =
     arctan (4 / 3)"
proof -
  let ?s = "\<lparr>rotors_m = [1], fouriers_m = [Complex 3 4], data_m = [1], size_m = 1\<rparr>"
  have k: "0 < length (fourier_coef ?s)" and c: "fourier_coef ?s ! 0 = Complex 3 4"
    by (simp_all add: fourier_coef_def)
  from spectra_of_coefficients [OF k] c
  have "amplifiers ?s ! 0 = sqrt 25" "power_spectrums ?s ! 0 = (amplifiers ?s ! 0)\<^sup>2"
    "angles ?s ! 0 = atan2 4 3"
    by simp_all
  then show ?thesis
    using k by (simp add: atan2_def)
qed

subsection \<open>The rotation table\<close>

text \<open>
  C8.  After construction the rotation table has exactly \<open>N = calc_size\<close> of the
  requested length entries; entry \<open>k\<close> is \<open>cos (2\<pi>k/N) + i sin (2\<pi>k/N)\<close> for every
  \<open>k < N\<close> and has modulus 1; entry 0, when there is one, is \<open>1 + 0i\<close>; and no call of
  \<open>dft\<close> or \<open>fft\<close> that returns changes the table.
\<close>

theorem rotation_table:
  "length (rotors (Fourier P n)) = calc_size P n \<and>
   (\<forall>k<calc_size P n.
      rotors (Fourier P n) ! k =
        Complex (cos (2 * pi * real k / real (calc_size P n)))
                (sin (2 * pi * real k / real (calc_size P n))) \<and>
      cmod (rotors (Fourier P n) ! k) = 1) \<and>
   (0 < calc_size P n \<longrightarrow> rotors (Fourier P n) ! 0 = Complex 1 0) \<and>
   (\<forall>b s'. dft s data sz = Inr (b, s') \<longrightarrow> rotors s' = rotors s) \<and>
   (\<forall>b s'. fft P conv s data' sz = Inr (b, s') \<longrightarrow> rotors s' = rotors s)"
proof (intro conjI allI impI)
  show "length (rotors (Fourier P n)) = calc_size P n"
    by (simp add: rotors_def rotors_Fourier)
next
  fix k assume "k < calc_size P n"
  then show "rotors (Fourier P n) ! k =
        Complex (cos (2 * pi * real k / real (calc_size P n)))
                (sin (2 * pi * real k / real (calc_size P n)))"
    by (simp only: rotors_def rotors_Fourier_nth)
next
  fix k assume "k < calc_size P n"
  then show "cmod (rotors (Fourier P n) ! k) = 1"
    by (simp only: rotors_def rotors_Fourier_nth cmod_cos_sin)
next
  assume "0 < calc_size P n"
  then have "rotors_m (Fourier P n) ! 0 = Complex (cos 0) (sin 0)"
    by (simp add: rotors_Fourier_nth)
  then show "rotors (Fourier P n) ! 0 = Complex 1 0"
    by (simp add: rotors_def)
next
  fix b s' assume "dft s data sz = Inr (b, s')"
  then show "rotors s' = rotors s"
    using dft_outcome [of s data sz b s'] by (simp add: rotors_def)
next
  fix b s' assume "fft P conv s data' sz = Inr (b, s')"
  then show "rotors s' = rotors s"
    using fft_outcome [of P conv s data' sz b s'] by (simp add: rotors_def)
qed

theorem rotation_table_witness:
  "length (rotors (Fourier plain_policy 2)) = 2 \<and>
   rotors (Fourier plain_policy 2) ! 1 = Complex (cos pi) (sin pi) \<and>
   rotors (Fourier plain_policy 2) ! 1 = - 1 \<and>
   cmod (rotors (Fourier plain_policy 2) ! 1) = 1 \<and>
   rotors (Fourier plain_policy 2) ! 0 = Complex 1 0 \<and>
   (\<exists>s'. dft (Fourier plain_policy 2) [1, 1] 2 = Inr (True, s') \<and>
         rotors s' = rotors (Fourier plain_policy 2)) \<and>
   (\<exists>s'. fft plain_policy (\<lambda>x. x) (Fourier plain_policy 2) [3, 4] 2 = Inr (True, s') \<and>
         rotors s' = rotors (Fourier plain_policy 2))"
proof -
  let ?s = "Fourier plain_policy 2"
  have n: "calc_size plain_policy 2 = 2"
    by (simp add: plain_policy_def)
  note t = rotation_table [of plain_policy 2 ?s "[1, 1]" 2 "\<lambda>x. x" "[3, 4]"]
  from t have "length (rotors ?s) = calc_size plain_policy 2"
    by blast
  then have len: "length (rotors ?s) = 2"
    by (simp only: n)
  from t have q: "\<forall>k<calc_size plain_policy 2.
      rotors ?s ! k =
        Complex (cos (2 * pi * real k / real (calc_size plain_policy 2)))
                (sin (2 * pi * real k / real (calc_size plain_policy 2))) \<and>
      cmod (rotors ?s ! k) = 1"
    by blast
  have "1 < calc_size plain_policy 2"
    by (simp add: n)
  with q have e: "rotors ?s ! 1 =
        Complex (cos (2 * pi * real 1 / real (calc_size plain_policy 2)))
                (sin (2 * pi * real 1 / real (calc_size plain_policy 2)))"
    and m: "cmod (rotors ?s ! 1) = 1"
    by blast+
  from e have one: "rotors ?s ! 1 = Complex (cos pi) (sin pi)"
    by (simp add: n)
  then have one': "rotors ?s ! 1 = - 1"
    by (simp add: Complex_real)
  from t have "0 < calc_size plain_policy 2 \<longrightarrow> rotors ?s ! 0 = Complex 1 0"
    by blast
  then have zero: "rotors ?s ! 0 = Complex 1 0"
    by (simp add: n)
  from t dft_run_2 have d: "\<exists>s'. dft ?s [1, 1] 2 = Inr (True, s') \<and> rotors s' = rotors ?s"
    by blast
  from t fft_run_2
  have f: "\<exists>s'. fft plain_policy (\<lambda>x. x) ?s [3, 4] 2 = Inr (True, s') \<and> rotors s' = rotors ?s"
    by blast
  from len one one' m zero d f show ?thesis
    by blast
qed

end
